theory Spec2Isabelle
  imports Main "HOL-Library.Word"
begin

section \<open>JavaScript strings\<close>

text \<open>
  A JavaScript string is a sequence of UTF-16 code units. \<open>ascii\<close> writes an ASCII
  literal of the source as such a sequence.
\<close>

type_synonym code_unit = "16 word"
type_synonym jsstring = "code_unit list"

definition ascii :: "string \<Rightarrow> jsstring" where
  "ascii s = map of_char s"

text \<open>
  \<open>String.prototype.trim\<close> removes the code points of WhiteSpace and LineTerminator
  from both ends; all of them lie in the basic plane, so they are single code units.
\<close>

definition isWhiteSpace :: "code_unit \<Rightarrow> bool" where
  "isWhiteSpace c \<longleftrightarrow>
     c = 0x0009 \<or> c = 0x000A \<or> c = 0x000B \<or> c = 0x000C \<or> c = 0x000D \<or> c = 0x0020 \<or>
     c = 0x00A0 \<or> c = 0x1680 \<or> (0x2000 \<le> c \<and> c \<le> 0x200A) \<or> c = 0x2028 \<or>
     c = 0x2029 \<or> c = 0x202F \<or> c = 0x205F \<or> c = 0x3000 \<or> c = 0xFEFF"

definition trim :: "jsstring \<Rightarrow> jsstring" where
  "trim s = rev (dropWhile isWhiteSpace (rev (dropWhile isWhiteSpace s)))"

text \<open>
  \<open>s.startsWith(t)\<close> and \<open>s.includes(t)\<close>, the search running from the left
  (\<open>includes\<close> is a keyword of Isabelle, hence \<open>js_includes\<close>).
\<close>

fun startsWith :: "'a list \<Rightarrow> 'a list \<Rightarrow> bool" where
  "startsWith s [] = True"
| "startsWith [] (y # ys) = False"
| "startsWith (x # xs) (y # ys) = (x = y \<and> startsWith xs ys)"

fun js_includes :: "'a list \<Rightarrow> 'a list \<Rightarrow> bool" where
  "js_includes [] t = (t = [])"
| "js_includes (x # xs) t = (startsWith (x # xs) t \<or> js_includes xs t)"

text \<open>
  \<open>String.prototype.toLowerCase\<close> follows the Unicode case tables, which are not part
  of the repository: every function below that lower-cases takes it as the parameter
  \<open>toLowerCase\<close>. \<open>asciiLower\<close>, which maps only A to Z, stands in for it where a
  closed term is evaluated on ASCII input.
\<close>

definition asciiLower :: "jsstring \<Rightarrow> jsstring" where
  "asciiLower s = map (\<lambda>c. if 0x41 \<le> c \<and> c \<le> 0x5A then c + 0x20 else c) s"

section \<open>Data model (types.ts)\<close>

datatype MailFolder = INBOX | JUNK

record EmailAccount =
  ea_id :: int
  ea_email :: jsstring
  ea_password :: jsstring
  ea_mail_type :: jsstring
  ea_client_id :: jsstring
  ea_refresh_token :: jsstring
  ea_last_check_time :: "jsstring option"

record MailRecord =
  mr_id :: int
  mr_email_id :: int
  mr_subject :: "jsstring option"
  mr_sender :: "jsstring option"
  mr_received_time :: "jsstring option"
  mr_content :: "jsstring option"
  mr_folder :: "jsstring option"
  mr_has_attachments :: int

section \<open>Folder classifier (EmailManagement.tsx, normalizeFolder)\<close>

definition junk_needle :: jsstring where
  "junk_needle = ascii ''junk''"

definition spam_needle :: jsstring where
  "spam_needle = ascii ''spam''"

text \<open>The two code units U+5783 U+573E of the localized term in the source.\<close>

definition laji_needle :: jsstring where
  "laji_needle = [0x5783, 0x573E]"

text \<open>
  \<open>folder\<close> is \<open>None\<close> for \<open>undefined\<close> or \<open>null\<close>; \<open>!folder\<close> is also true
  of the empty string.
\<close>

definition normalizeFolder :: "(jsstring \<Rightarrow> jsstring) \<Rightarrow> jsstring option \<Rightarrow> MailFolder" where
  "normalizeFolder toLowerCase folder =
     (case folder of
        None \<Rightarrow> INBOX
      | Some f \<Rightarrow>
          if f = [] then INBOX
          else
            let normalized = toLowerCase (trim f)
            in if js_includes normalized junk_needle \<or> js_includes normalized spam_needle
                  \<or> js_includes normalized laji_needle
               then JUNK
               else INBOX)"

definition filterMailRecordsByFolder ::
  "(jsstring \<Rightarrow> jsstring) \<Rightarrow> MailRecord list \<Rightarrow> MailFolder \<Rightarrow> MailRecord list" where
  "filterMailRecordsByFolder toLowerCase records folder =
     filter (\<lambda>record. normalizeFolder toLowerCase (mr_folder record) = folder) records"

section \<open>Page window (EmailManagement.tsx, buildPageItems)\<close>

datatype page_item = Page int | Ellipsis

text \<open>
  \<open>Array.from({ length: total }, (_, index) => index + 1)\<close> has \<open>total\<close> entries,
  none for a length below one. The parameters \<open>total\<close> and \<open>current\<close> are written
  \<open>total_n\<close> and \<open>current_n\<close>.
\<close>

definition buildPageItems :: "int \<Rightarrow> int \<Rightarrow> page_item list" where
  "buildPageItems total_n current_n =
     (if total_n \<le> 7 then map (\<lambda>index. Page (int index + 1)) [0..<nat total_n]
      else if current_n \<le> 3 then [Page 1, Page 2, Page 3, Page 4, Ellipsis, Page total_n]
      else if current_n \<ge> total_n - 2 then
        [Page 1, Ellipsis, Page (total_n - 3), Page (total_n - 2), Page (total_n - 1), Page total_n]
      else
        [Page 1, Ellipsis, Page (current_n - 1), Page current_n, Page (current_n + 1), Ellipsis,
         Page total_n])"

text \<open>The four branches in the words of the specification, for comparison.\<close>

definition buildPageWindow_spec :: "int \<Rightarrow> int \<Rightarrow> page_item list" where
  "buildPageWindow_spec totalPages currentPage =
     (if totalPages \<le> 7 then map Page [1..totalPages]
      else if currentPage \<le> 3 then
        [Page 1, Page 2, Page 3, Page 4, Ellipsis, Page totalPages]
      else if currentPage \<ge> totalPages - 2 then
        [Page 1, Ellipsis, Page (totalPages - 3), Page (totalPages - 2),
         Page (totalPages - 1), Page totalPages]
      else
        [Page 1, Ellipsis, Page (currentPage - 1), Page currentPage, Page (currentPage + 1),
         Ellipsis, Page totalPages])"

section \<open>Component state of EmailManagement\<close>

text \<open>The value a rejected promise carries, and the value a \<open>catch\<close> clause binds.\<close>

datatype js_error = Error jsstring

text \<open>The answer of \<open>import_emails\<close> (types.ts, ImportResult).\<close>

record ImportResult =
  success_count :: int
  failed_count :: int
  failed_lines :: "jsstring list"

text \<open>
  The text of the result box, by the branch of \<open>handleBatchImport\<close> that builds it:
  the success message with its count, the counts with the failed lines, or the
  failure with its error.
\<close>

datatype import_message =
    Import_success int
  | Import_partial int int "jsstring list"
  | Import_failed js_error

text \<open>The \<open>useState\<close> cells of the component that the handlers below read or write.\<close>

record EMState =
  emails :: "EmailAccount list"
  loading :: bool
  selectedIds :: "int list"
  currentPage :: int
  pageSize :: int
  separator :: jsstring
  searchQuery :: jsstring
  importResult :: "import_message option"
  mailViewerOpen :: bool
  mailViewerEmail :: "EmailAccount option"
  mailViewerFolder :: MailFolder
  mailViewerRecords :: "MailRecord list"
  mailViewerLoading :: bool
  selectedMail :: "MailRecord option"
  isDetailOpen :: bool

definition initial_state :: EMState where
  "initial_state =
     \<lparr>emails = [], loading = False, selectedIds = [], currentPage = 1, pageSize = 10,
      separator = ascii ''----'', searchQuery = [], importResult = None,
      mailViewerOpen = False, mailViewerEmail = None, mailViewerFolder = INBOX,
      mailViewerRecords = [], mailViewerLoading = False, selectedMail = None,
      isDetailOpen = False\<rparr>"

text \<open>The Tauri commands, each with exactly the arguments its \<open>invoke\<close> passes.\<close>

datatype command =
    Get_emails
  | Import_emails jsstring
  | Get_mail_records int
  | Check_outlook_email int MailFolder
  | Delete_email int

text \<open>
  What a handler does, one statement at a time: a state setter, an \<open>invoke\<close>, a
  \<open>console.error\<close> or an \<open>alert\<close>.
\<close>

datatype action =
    Set_emails "EmailAccount list"
  | Set_loading bool
  | Set_selectedIds "int list"
  | Set_currentPage int
  | Set_pageSize int
  | Set_separator jsstring
  | Set_searchQuery jsstring
  | Set_importResult "import_message option"
  | Set_mailViewerOpen bool
  | Set_mailViewerEmail "EmailAccount option"
  | Set_mailViewerFolder MailFolder
  | Set_mailViewerRecords "MailRecord list"
  | Set_mailViewerLoading bool
  | Set_selectedMail "MailRecord option"
  | Set_isDetailOpen bool
  | Invoke command
  | Console_error js_error
  | Alert js_error

fun apply_action :: "action \<Rightarrow> EMState \<Rightarrow> EMState" where
  "apply_action (Set_emails v) s = s\<lparr>emails := v\<rparr>"
| "apply_action (Set_loading v) s = s\<lparr>loading := v\<rparr>"
| "apply_action (Set_selectedIds v) s = s\<lparr>selectedIds := v\<rparr>"
| "apply_action (Set_currentPage v) s = s\<lparr>currentPage := v\<rparr>"
| "apply_action (Set_pageSize v) s = s\<lparr>pageSize := v\<rparr>"
| "apply_action (Set_separator v) s = s\<lparr>separator := v\<rparr>"
| "apply_action (Set_searchQuery v) s = s\<lparr>searchQuery := v\<rparr>"
| "apply_action (Set_importResult v) s = s\<lparr>importResult := v\<rparr>"
| "apply_action (Set_mailViewerOpen v) s = s\<lparr>mailViewerOpen := v\<rparr>"
| "apply_action (Set_mailViewerEmail v) s = s\<lparr>mailViewerEmail := v\<rparr>"
| "apply_action (Set_mailViewerFolder v) s = s\<lparr>mailViewerFolder := v\<rparr>"
| "apply_action (Set_mailViewerRecords v) s = s\<lparr>mailViewerRecords := v\<rparr>"
| "apply_action (Set_mailViewerLoading v) s = s\<lparr>mailViewerLoading := v\<rparr>"
| "apply_action (Set_selectedMail v) s = s\<lparr>selectedMail := v\<rparr>"
| "apply_action (Set_isDetailOpen v) s = s\<lparr>isDetailOpen := v\<rparr>"
| "apply_action (Invoke c) s = s"
| "apply_action (Console_error e) s = s"
| "apply_action (Alert e) s = s"

section \<open>Asynchronous handlers as resumable statements\<close>

text \<open>
  An \<open>async\<close> function runs until its next \<open>await\<close>, where it is suspended with
  the variables it closes over; the completion of the awaited call resumes it. A
  suspended function is a \<open>task\<close>, named after the function and the call it awaits.
\<close>

datatype task =
    OpenMailbox_sync EmailAccount MailFolder
  | LoadMailViewerRecords_get int MailFolder
  | LoadEmails_get
  | Delete_invoke int
  | BatchDelete_invoke "int list"
  | BatchImport_invoke

text \<open>
  The world of the component: its state, the statements executed so far (oldest
  first), the suspended tasks by number, and the rejections nobody handled.
\<close>

record world =
  ui :: EMState
  trace :: "action list"
  tasks :: "nat \<Rightarrow> task option"
  next_task :: nat
  unhandled :: "js_error list"

definition initial_world :: world where
  "initial_world =
     \<lparr>ui = initial_state, trace = [], tasks = (\<lambda>k. None), next_task = 0, unhandled = []\<rparr>"

text \<open>A statement ends normally (\<open>None\<close>) or throws (\<open>Some\<close> of the error).\<close>

type_synonym stmt = "world \<Rightarrow> js_error option \<times> world"

definition skip :: stmt where
  "skip w = (None, w)"

definition throw :: "js_error \<Rightarrow> stmt" where
  "throw e w = (Some e, w)"

definition perform :: "action \<Rightarrow> stmt" where
  "perform a w = (None, w\<lparr>ui := apply_action a (ui w), trace := trace w @ [a]\<rparr>)"

fun block :: "stmt list \<Rightarrow> stmt" where
  "block [] w = (None, w)"
| "block (p # ps) w =
     (case p w of (None, w') \<Rightarrow> block ps w' | (Some e, w') \<Rightarrow> (Some e, w'))"

definition try_catch :: "stmt \<Rightarrow> (js_error \<Rightarrow> stmt) \<Rightarrow> stmt" where
  "try_catch body handler w =
     (case body w of (None, w') \<Rightarrow> (None, w') | (Some e, w') \<Rightarrow> handler e w')"

definition try_finally :: "stmt \<Rightarrow> stmt \<Rightarrow> stmt" where
  "try_finally body final w =
     (case body w of
        (r, w') \<Rightarrow> (case final w' of (None, w'') \<Rightarrow> (r, w'') | (Some e, w'') \<Rightarrow> (Some e, w'')))"

text \<open>
  \<open>await invoke(c)\<close>: the call is issued and the function is suspended as task
  \<open>t\<close>. On resumption \<open>awaited r k\<close> throws the rejection or goes on with the value.
\<close>

definition await_invoke :: "command \<Rightarrow> task \<Rightarrow> stmt" where
  "await_invoke c t w =
     (None, w\<lparr>trace := trace w @ [Invoke c],
              tasks := (tasks w)(next_task w \<mapsto> t),
              next_task := Suc (next_task w)\<rparr>)"

definition awaited :: "js_error + 'a \<Rightarrow> ('a \<Rightarrow> stmt) \<Rightarrow> stmt" where
  "awaited r k = (case r of Inl e \<Rightarrow> throw e | Inr v \<Rightarrow> k v)"

text \<open>
  A call of an \<open>async\<close> function that is not awaited never throws into its caller:
  an error would reject a promise that nobody observes.
\<close>

definition spawn :: "stmt \<Rightarrow> stmt" where
  "spawn p w =
     (case p w of
        (None, w') \<Rightarrow> (None, w')
      | (Some e, w') \<Rightarrow> (None, w'\<lparr>unhandled := unhandled w' @ [e]\<rparr>))"

definition run_handler :: "stmt \<Rightarrow> world \<Rightarrow> world" where
  "run_handler p w =
     (case p w of
        (None, w') \<Rightarrow> w'
      | (Some e, w') \<Rightarrow> w'\<lparr>unhandled := unhandled w' @ [e]\<rparr>)"

subsection \<open>loadEmails\<close>

definition loadEmails :: stmt where
  "loadEmails = block [perform (Set_loading True), await_invoke Get_emails LoadEmails_get]"

definition loadEmails_resume :: "js_error + EmailAccount list \<Rightarrow> stmt" where
  "loadEmails_resume r =
     try_finally
       (try_catch
          (awaited r (\<lambda>list. perform (Set_emails list)))
          (\<lambda>error. perform (Console_error error)))
       (perform (Set_loading False))"

subsection \<open>handleBatchImport\<close>

definition handleBatchImport :: "jsstring \<Rightarrow> stmt" where
  "handleBatchImport content =
     block [perform (Set_loading True),
            perform (Set_importResult None),
            await_invoke (Import_emails content) BatchImport_invoke]"

definition handleBatchImport_resume :: "js_error + ImportResult \<Rightarrow> stmt" where
  "handleBatchImport_resume r =
     try_finally
       (try_catch
          (awaited r (\<lambda>response.
             block [if failed_count response = 0
                    then perform (Set_importResult (Some (Import_success (success_count response))))
                    else perform (Set_importResult
                           (Some (Import_partial (success_count response) (failed_count response)
                                    (failed_lines response)))),
                    spawn loadEmails]))
          (\<lambda>error. perform (Set_importResult (Some (Import_failed error)))))
       (perform (Set_loading False))"

subsection \<open>loadMailViewerRecords, handleOpenMailbox, handleCloseMailbox\<close>

definition loadMailViewerRecords :: "int \<Rightarrow> MailFolder \<Rightarrow> stmt" where
  "loadMailViewerRecords emailId folder =
     block [perform (Set_mailViewerLoading True),
            await_invoke (Get_mail_records emailId) (LoadMailViewerRecords_get emailId folder)]"

definition loadMailViewerRecords_resume ::
  "(jsstring \<Rightarrow> jsstring) \<Rightarrow> MailFolder \<Rightarrow> js_error + MailRecord list \<Rightarrow> stmt" where
  "loadMailViewerRecords_resume toLowerCase folder r =
     try_finally
       (try_catch
          (awaited r (\<lambda>records.
             perform (Set_mailViewerRecords (filterMailRecordsByFolder toLowerCase records folder))))
          (\<lambda>error. block [perform (Console_error error), perform (Set_mailViewerRecords [])]))
       (perform (Set_mailViewerLoading False))"

definition handleOpenMailbox :: "EmailAccount \<Rightarrow> MailFolder \<Rightarrow> stmt" where
  "handleOpenMailbox account folder =
     block [perform (Set_mailViewerEmail (Some account)),
            perform (Set_mailViewerFolder folder),
            perform (Set_mailViewerRecords []),
            perform (Set_mailViewerOpen True),
            perform (Set_mailViewerLoading True),
            await_invoke (Check_outlook_email (ea_id account) folder)
              (OpenMailbox_sync account folder)]"

definition handleOpenMailbox_resume :: "EmailAccount \<Rightarrow> MailFolder \<Rightarrow> js_error + unit \<Rightarrow> stmt" where
  "handleOpenMailbox_resume account folder r =
     block [try_catch (awaited r (\<lambda>u. skip)) (\<lambda>error. perform (Console_error error)),
            spawn (loadMailViewerRecords (ea_id account) folder)]"

definition handleCloseMailbox :: stmt where
  "handleCloseMailbox =
     block [perform (Set_mailViewerOpen False),
            perform (Set_mailViewerEmail None),
            perform (Set_mailViewerRecords []),
            perform (Set_selectedMail None),
            perform (Set_isDetailOpen False)]"

subsection \<open>handleDelete and handleBatchDelete\<close>

text \<open>\<open>confirmed\<close> is the answer of the \<open>confirm\<close> dialog.\<close>

definition handleDelete :: "int \<Rightarrow> bool \<Rightarrow> stmt" where
  "handleDelete idv confirmed =
     (if \<not> confirmed then skip else await_invoke (Delete_email idv) (Delete_invoke idv))"

definition handleDelete_resume :: "js_error + unit \<Rightarrow> stmt" where
  "handleDelete_resume r =
     try_catch (awaited r (\<lambda>u. spawn loadEmails)) (\<lambda>error. perform (Alert error))"

text \<open>
  The loop of \<open>handleBatchDelete\<close> over the ids it captured: one \<open>delete_email\<close> at a
  time, a rejection going to \<open>console.error\<close>; after the last one the selection is
  cleared and the list reloaded.
\<close>

definition batchDelete_loop :: "int list \<Rightarrow> stmt" where
  "batchDelete_loop ids =
     (case ids of
        [] \<Rightarrow> block [perform (Set_selectedIds []), spawn loadEmails]
      | idv # rest \<Rightarrow> await_invoke (Delete_email idv) (BatchDelete_invoke rest))"

definition handleBatchDelete :: "bool \<Rightarrow> stmt" where
  "handleBatchDelete confirmed w =
     (if selectedIds (ui w) = [] then skip w
      else if \<not> confirmed then skip w
      else batchDelete_loop (selectedIds (ui w)) w)"

definition handleBatchDelete_resume :: "int list \<Rightarrow> js_error + unit \<Rightarrow> stmt" where
  "handleBatchDelete_resume rest r =
     block [case r of Inl error \<Rightarrow> perform (Console_error error) | Inr u \<Rightarrow> skip,
            batchDelete_loop rest]"

subsection \<open>Selection: handleSelectAll and toggleSelect\<close>

text \<open>
  \<open>Array.from(new Set(xs))\<close>: a Set keeps the first occurrence of every value, in
  insertion order.
\<close>

definition set_add :: "'a list \<Rightarrow> 'a \<Rightarrow> 'a list" where
  "set_add acc x = (if x \<in> set acc then acc else acc @ [x])"

definition array_from_set :: "'a list \<Rightarrow> 'a list" where
  "array_from_set xs = foldl set_add [] xs"

definition handleSelectAll :: "bool \<Rightarrow> int list \<Rightarrow> stmt" where
  "handleSelectAll checked ids w =
     (if ids = [] then skip w
      else if checked then
        perform (Set_selectedIds (array_from_set (selectedIds (ui w) @ ids))) w
      else perform (Set_selectedIds (filter (\<lambda>idv. idv \<notin> set ids) (selectedIds (ui w)))) w)"

definition toggleSelect :: "int \<Rightarrow> stmt" where
  "toggleSelect idv w =
     (if idv \<in> set (selectedIds (ui w)) then
        perform (Set_selectedIds (filter (\<lambda>i. i \<noteq> idv) (selectedIds (ui w)))) w
      else perform (Set_selectedIds (selectedIds (ui w) @ [idv])) w)"

subsection \<open>Filtering and paging\<close>

definition filteredEmails :: "(jsstring \<Rightarrow> jsstring) \<Rightarrow> EMState \<Rightarrow> EmailAccount list" where
  "filteredEmails toLowerCase s =
     filter (\<lambda>e. js_includes (toLowerCase (ea_email e)) (toLowerCase (searchQuery s))) (emails s)"

text \<open>\<open>Math.ceil(n / p)\<close> for the positive page sizes the selector offers.\<close>

definition ceil_div :: "int \<Rightarrow> int \<Rightarrow> int" where
  "ceil_div n p = - ((- n) div p)"

definition totalPages :: "(jsstring \<Rightarrow> jsstring) \<Rightarrow> EMState \<Rightarrow> int" where
  "totalPages toLowerCase s =
     max 1 (ceil_div (int (length (filteredEmails toLowerCase s))) (pageSize s))"

definition pageStart :: "EMState \<Rightarrow> int" where
  "pageStart s = (currentPage s - 1) * pageSize s"

text \<open>\<open>slice(pageStart, pageStart + pageSize)\<close> for a start that is not negative.\<close>

definition paginatedEmails :: "(jsstring \<Rightarrow> jsstring) \<Rightarrow> EMState \<Rightarrow> EmailAccount list" where
  "paginatedEmails toLowerCase s =
     take (nat (pageSize s)) (drop (nat (pageStart s)) (filteredEmails toLowerCase s))"

definition pageEmailIds :: "(jsstring \<Rightarrow> jsstring) \<Rightarrow> EMState \<Rightarrow> int list" where
  "pageEmailIds toLowerCase s = map ea_id (paginatedEmails toLowerCase s)"

definition pageItems :: "(jsstring \<Rightarrow> jsstring) \<Rightarrow> EMState \<Rightarrow> page_item list" where
  "pageItems toLowerCase s = buildPageItems (totalPages toLowerCase s) (currentPage s)"

section \<open>Events\<close>

text \<open>
  What happens to the component: the user's clicks and inputs, the two page effects
  (\<open>useEffect\<close>) and the completions of the commands in flight, each naming the task
  it resumes.
\<close>

datatype event =
    Mount
  | Click_open EmailAccount MailFolder
  | Click_close
  | Click_delete int bool
  | Click_batch_delete bool
  | Toggle_row int
  | Toggle_page bool
  | Click_prev
  | Click_next
  | Click_page int
  | Change_search jsstring
  | Change_pageSize int
  | Change_separator jsstring
  | Import_content jsstring
  | Effect_reset_page
  | Effect_clamp_page
  | Settle_unit nat "js_error + unit"
  | Settle_emails nat "js_error + EmailAccount list"
  | Settle_records nat "js_error + MailRecord list"
  | Settle_import nat "js_error + ImportResult"

definition finish :: "nat \<Rightarrow> world \<Rightarrow> world" where
  "finish k w = w\<lparr>tasks := (tasks w)(k := None)\<rparr>"

fun step :: "(jsstring \<Rightarrow> jsstring) \<Rightarrow> event \<Rightarrow> world \<Rightarrow> world" where
  "step lc Mount w = run_handler loadEmails w"
| "step lc (Click_open account folder) w = run_handler (handleOpenMailbox account folder) w"
| "step lc Click_close w = run_handler handleCloseMailbox w"
| "step lc (Click_delete idv confirmed) w = run_handler (handleDelete idv confirmed) w"
| "step lc (Click_batch_delete confirmed) w = run_handler (handleBatchDelete confirmed) w"
| "step lc (Toggle_row idv) w = run_handler (toggleSelect idv) w"
| "step lc (Toggle_page checked) w =
     run_handler (handleSelectAll checked (pageEmailIds lc (ui w))) w"
| "step lc Click_prev w =
     run_handler (perform (Set_currentPage (max 1 (currentPage (ui w) - 1)))) w"
| "step lc Click_next w =
     run_handler
       (perform (Set_currentPage (min (totalPages lc (ui w)) (currentPage (ui w) + 1)))) w"
| "step lc (Click_page item) w = run_handler (perform (Set_currentPage item)) w"
| "step lc (Change_search q) w = run_handler (perform (Set_searchQuery q)) w"
| "step lc (Change_pageSize n) w = run_handler (perform (Set_pageSize n)) w"
| "step lc (Change_separator v) w = run_handler (perform (Set_separator v)) w"
| "step lc (Import_content content) w = run_handler (handleBatchImport content) w"
| "step lc Effect_reset_page w = run_handler (perform (Set_currentPage 1)) w"
| "step lc Effect_clamp_page w =
     (if currentPage (ui w) > totalPages lc (ui w)
      then run_handler (perform (Set_currentPage (totalPages lc (ui w)))) w
      else w)"
| "step lc (Settle_unit k r) w =
     (case tasks w k of
        Some (OpenMailbox_sync account folder) \<Rightarrow>
          run_handler (handleOpenMailbox_resume account folder r) (finish k w)
      | Some (Delete_invoke idv) \<Rightarrow> run_handler (handleDelete_resume r) (finish k w)
      | Some (BatchDelete_invoke rest) \<Rightarrow>
          run_handler (handleBatchDelete_resume rest r) (finish k w)
      | _ \<Rightarrow> w)"
| "step lc (Settle_emails k r) w =
     (case tasks w k of
        Some LoadEmails_get \<Rightarrow> run_handler (loadEmails_resume r) (finish k w)
      | _ \<Rightarrow> w)"
| "step lc (Settle_records k r) w =
     (case tasks w k of
        Some (LoadMailViewerRecords_get emailId folder) \<Rightarrow>
          run_handler (loadMailViewerRecords_resume lc folder r) (finish k w)
      | _ \<Rightarrow> w)"
| "step lc (Settle_import k r) w =
     (case tasks w k of
        Some BatchImport_invoke \<Rightarrow> run_handler (handleBatchImport_resume r) (finish k w)
      | _ \<Rightarrow> w)"

fun run :: "(jsstring \<Rightarrow> jsstring) \<Rightarrow> event list \<Rightarrow> world \<Rightarrow> world" where
  "run lc [] w = w"
| "run lc (e # es) w = run lc es (step lc e w)"

section \<open>Toast of the About page (About.tsx)\<close>

record UpdateInfo =
  version :: jsstring
  downloadUrl :: jsstring

text \<open>
  The state cells and the timer reference of the component, with the timers it has
  pending in the window (handle and delay, oldest first) and the handle the next
  \<open>setTimeout\<close> returns. Every timer carries the same callback, \<open>timer_fires\<close>.
\<close>

record about_world =
  toastMessage :: "jsstring option"
  toastId :: nat
  toastTimerRef :: "nat option"
  updateInfo :: "UpdateInfo option"
  timers :: "(nat \<times> int) list"
  next_handle :: nat

text \<open>The handles of \<open>setTimeout\<close> are positive integers.\<close>

definition initial_about :: about_world where
  "initial_about =
     \<lparr>toastMessage = None, toastId = 0, toastTimerRef = None, updateInfo = None,
      timers = [], next_handle = 1\<rparr>"

definition setTimeout :: "int \<Rightarrow> about_world \<Rightarrow> nat \<times> about_world" where
  "setTimeout delay w =
     (next_handle w,
      w\<lparr>timers := timers w @ [(next_handle w, delay)], next_handle := Suc (next_handle w)\<rparr>)"

definition clearTimeout :: "nat \<Rightarrow> about_world \<Rightarrow> about_world" where
  "clearTimeout h w = w\<lparr>timers := filter (\<lambda>t. fst t \<noteq> h) (timers w)\<rparr>"

text \<open>\<open>if (toastTimerRef.current)\<close>: neither \<open>null\<close> nor zero.\<close>

definition ref_truthy :: "nat option \<Rightarrow> bool" where
  "ref_truthy r = (case r of None \<Rightarrow> False | Some h \<Rightarrow> h \<noteq> 0)"

definition showToast :: "jsstring \<Rightarrow> int \<Rightarrow> about_world \<Rightarrow> about_world" where
  "showToast message duration w =
     (let w1 = w\<lparr>toastMessage := Some message\<rparr>;
          w2 = w1\<lparr>toastId := toastId w1 + 1\<rparr>;
          w3 = (if ref_truthy (toastTimerRef w2)
                then (clearTimeout (the (toastTimerRef w2)) w2)\<lparr>toastTimerRef := None\<rparr>
                else w2)
      in if duration > 0
         then (case setTimeout duration w3 of (h, w4) \<Rightarrow> w4\<lparr>toastTimerRef := Some h\<rparr>)
         else w3)"

definition dismissToast :: "about_world \<Rightarrow> about_world" where
  "dismissToast w =
     (let w1 = (if ref_truthy (toastTimerRef w)
                then (clearTimeout (the (toastTimerRef w)) w)\<lparr>toastTimerRef := None\<rparr>
                else w);
          w2 = w1\<lparr>toastMessage := None\<rparr>
      in w2\<lparr>updateInfo := None\<rparr>)"

text \<open>The window runs the callback of a pending timer, once.\<close>

definition timer_fires :: "nat \<Rightarrow> about_world \<Rightarrow> about_world" where
  "timer_fires h w =
     (if h \<in> fst ` set (timers w)
      then (clearTimeout h w)\<lparr>toastMessage := None, updateInfo := None, toastTimerRef := None\<rparr>
      else w)"

text \<open>\<open>toastMessage && createPortal(...)\<close>: what the page shows.\<close>

definition visible_toast :: "about_world \<Rightarrow> jsstring option" where
  "visible_toast w =
     (case toastMessage w of None \<Rightarrow> None | Some m \<Rightarrow> if m = [] then None else Some m)"

datatype about_event = Show jsstring int | Dismiss | Timer nat

fun about_step :: "about_event \<Rightarrow> about_world \<Rightarrow> about_world" where
  "about_step (Show message duration) w = showToast message duration w"
| "about_step Dismiss w = dismissToast w"
| "about_step (Timer h) w = timer_fires h w"

fun about_run :: "about_event list \<Rightarrow> about_world \<Rightarrow> about_world" where
  "about_run [] w = w"
| "about_run (e # es) w = about_run es (about_step e w)"

text \<open>
  What holds of the timers in every state the component reaches: the reference is
  empty and no timer is pending, or it holds the handle of the only pending timer.
\<close>

definition toast_inv :: "about_world \<Rightarrow> bool" where
  "toast_inv w =
     (0 < next_handle w \<and>
      (case toastTimerRef w of
         None \<Rightarrow> timers w = []
       | Some h \<Rightarrow> map fst (timers w) = [h] \<and> 0 < h \<and> h < next_handle w))"

section \<open>Classes of events\<close>

text \<open>The events that open or close the mail viewer.\<close>

fun opens_or_closes :: "event \<Rightarrow> bool" where
  "opens_or_closes (Click_open account folder) = True"
| "opens_or_closes Click_close = True"
| "opens_or_closes e = False"

text \<open>The completions of \<open>get_mail_records\<close>.\<close>

fun settles_records :: "event \<Rightarrow> bool" where
  "settles_records (Settle_records k r) = True"
| "settles_records e = False"

text \<open>The completions that name task \<open>k\<close>.\<close>

fun settles :: "nat \<Rightarrow> event \<Rightarrow> bool" where
  "settles k (Settle_unit k' r) = (k' = k)"
| "settles k (Settle_emails k' r) = (k' = k)"
| "settles k (Settle_records k' r) = (k' = k)"
| "settles k (Settle_import k' r) = (k' = k)"
| "settles k e = False"

text \<open>Page navigation, changes of the search filter and of the page size, and the page effects.\<close>

fun navigates :: "event \<Rightarrow> bool" where
  "navigates Click_prev = True"
| "navigates Click_next = True"
| "navigates (Click_page item) = True"
| "navigates (Change_search q) = True"
| "navigates (Change_pageSize n) = True"
| "navigates Effect_reset_page = True"
| "navigates Effect_clamp_page = True"
| "navigates e = False"

section \<open>Example data\<close>

definition example_account :: "int \<Rightarrow> string \<Rightarrow> EmailAccount" where
  "example_account n address =
     \<lparr>ea_id = n, ea_email = ascii address, ea_password = ascii ''pw'',
      ea_mail_type = ascii ''outlook'', ea_client_id = ascii ''cid'',
      ea_refresh_token = ascii ''rt'', ea_last_check_time = None\<rparr>"

definition example_record :: "int \<Rightarrow> int \<Rightarrow> string \<Rightarrow> MailRecord" where
  "example_record n owner label =
     \<lparr>mr_id = n, mr_email_id = owner, mr_subject = None, mr_sender = None,
      mr_received_time = None, mr_content = None, mr_folder = Some (ascii label),
      mr_has_attachments = 0\<rparr>"

definition accountA :: EmailAccount where "accountA = example_account 1 ''a@x.com''"
definition accountB :: EmailAccount where "accountB = example_account 2 ''b@x.com''"
definition recordA :: MailRecord where "recordA = example_record 10 1 ''Inbox''"
definition recordB :: MailRecord where "recordB = example_record 20 2 ''Junk Email''"
definition account3 :: EmailAccount where "account3 = example_account 3 ''c@x.com''"
definition account7 :: EmailAccount where "account7 = example_account 7 ''g@x.com''"

text \<open>
  Mailbox A is opened on INBOX and closed, mailbox B is opened on JUNK while A's sync is
  still in flight; both syncs complete, B's records arrive, and A's records arrive last.
\<close>

definition stale_prefix :: "event list" where
  "stale_prefix = [Click_open accountA INBOX, Click_close]"

definition stale_middle :: "event list" where
  "stale_middle =
     [Settle_unit 0 (Inr ()), Settle_unit 1 (Inr ()), Settle_records 3 (Inr [recordB])]"

definition stale_events :: "event list" where
  "stale_events =
     stale_prefix @ Click_open accountB JUNK # stale_middle @ [Settle_records 2 (Inr [recordA])]"

text \<open>A mailbox whose sync is in flight, and one whose load is in flight.\<close>

definition syncing_world :: world where
  "syncing_world = run asciiLower [Click_open accountA INBOX] initial_world"

definition loading_world :: world where
  "loading_world = run asciiLower [Click_open accountA INBOX, Settle_unit 0 (Inr ())] initial_world"

text \<open>The list holds accounts 3 and 7, and both are selected.\<close>

definition selected_world :: world where
  "selected_world =
     run asciiLower
       [Mount, Settle_emails 0 (Inr [account3, account7]), Toggle_row 3, Toggle_row 7]
       initial_world"

section \<open>Lemmas on strings\<close>

lemma startsWith_iff: "startsWith s t \<longleftrightarrow> (\<exists>q. s = t @ q)"
  by (induction s t rule: startsWith.induct) auto

lemma includes_iff: "js_includes s t \<longleftrightarrow> (\<exists>p q. s = p @ t @ q)"
proof (induction s)
  case Nil
  then show ?case by auto
next
  case (Cons x xs)
  show ?case
  proof
    assume "js_includes (x # xs) t"
    then consider "startsWith (x # xs) t" | "js_includes xs t" by auto
    then show "\<exists>p q. x # xs = p @ t @ q"
    proof cases
      case 1
      then obtain q where "x # xs = t @ q" by (auto simp: startsWith_iff)
      then have "x # xs = [] @ t @ q" by simp
      then show ?thesis by blast
    next
      case 2
      then obtain p q where "xs = p @ t @ q" using Cons.IH by auto
      then have "x # xs = (x # p) @ t @ q" by simp
      then show ?thesis by blast
    qed
  next
    assume "\<exists>p q. x # xs = p @ t @ q"
    then obtain p q where pq: "x # xs = p @ t @ q" by auto
    show "js_includes (x # xs) t"
    proof (cases p)
      case Nil
      with pq have "startsWith (x # xs) t" by (auto simp: startsWith_iff)
      then show ?thesis by simp
    next
      case (Cons y p')
      with pq have "xs = p' @ t @ q" by simp
      then have "js_includes xs t" using Cons.IH by auto
      then show ?thesis by simp
    qed
  qed
qed

lemma trim_Nil: "trim [] = []"
  by (simp add: trim_def)

section \<open>Lemmas on the selection\<close>

lemma set_add_distinct: "distinct acc \<Longrightarrow> distinct (set_add acc x)"
  by (simp add: set_add_def)

lemma foldl_set_add_distinct: "distinct acc \<Longrightarrow> distinct (foldl set_add acc xs)"
  by (induction xs arbitrary: acc) (simp_all add: set_add_distinct)

lemma foldl_set_add_set: "set (foldl set_add acc xs) = set acc \<union> set xs"
  by (induction xs arbitrary: acc) (auto simp: set_add_def)

lemma array_from_set_distinct: "distinct (array_from_set xs)"
  by (simp add: array_from_set_def foldl_set_add_distinct)

lemma array_from_set_set: "set (array_from_set xs) = set xs"
  by (simp add: array_from_set_def foldl_set_add_set)

section \<open>Lemmas on the page window\<close>

lemma array_from_upto: "map (\<lambda>index. Page (int index + 1)) [0..<nat n] = map Page [1..n]"
proof -
  have "map (\<lambda>index. int index + 1) [0..<k] = [1..int k]" for k
  proof (induction k)
    case 0
    then show ?case by simp
  next
    case (Suc k)
    have "[1..int (Suc k)] = [1..int k] @ [int k + 1]"
      using upto_rec2 [of 1 "int k + 1"] by (simp add: add.commute)
    with Suc show ?case by simp
  qed
  from this [of "nat n"] have "map (\<lambda>index. int index + 1) [0..<nat n] = [1..n]"
    by (cases "0 \<le> n") simp_all
  then have "map Page (map (\<lambda>index. int index + 1) [0..<nat n]) = map Page [1..n]"
    by simp
  then show ?thesis by (simp add: comp_def)
qed

lemma buildPageItems_refines: "buildPageItems t c = buildPageWindow_spec t c"
  by (simp add: buildPageItems_def buildPageWindow_spec_def array_from_upto)

section \<open>Lemmas on the handlers\<close>

lemmas stmt_defs = skip_def throw_def perform_def try_catch_def try_finally_def
  await_invoke_def awaited_def spawn_def run_handler_def finish_def

lemmas handler_defs = loadEmails_def loadEmails_resume_def handleBatchImport_def
  handleBatchImport_resume_def loadMailViewerRecords_def loadMailViewerRecords_resume_def
  handleOpenMailbox_def handleOpenMailbox_resume_def handleCloseMailbox_def handleDelete_def
  handleDelete_resume_def batchDelete_loop_def handleBatchDelete_def handleBatchDelete_resume_def
  handleSelectAll_def toggleSelect_def

lemmas example_defs = example_account_def example_record_def accountA_def accountB_def
  recordA_def recordB_def account3_def account7_def

lemmas world_defs = initial_world_def initial_state_def syncing_world_def loading_world_def
  selected_world_def stale_events_def stale_prefix_def stale_middle_def

lemmas classify_defs = filterMailRecordsByFolder_def normalizeFolder_def ascii_def trim_def
  isWhiteSpace_def asciiLower_def junk_needle_def spam_needle_def laji_needle_def

text \<open>What a click on an open button and the two completions of a session do, written out.\<close>

lemma open_click:
  "step lc (Click_open account folder) w =
     w\<lparr>ui := (ui w)\<lparr>mailViewerEmail := Some account, mailViewerFolder := folder,
                     mailViewerRecords := [], mailViewerOpen := True,
                     mailViewerLoading := True\<rparr>,
       trace := trace w @
         [Set_mailViewerEmail (Some account), Set_mailViewerFolder folder,
          Set_mailViewerRecords [], Set_mailViewerOpen True, Set_mailViewerLoading True,
          Invoke (Check_outlook_email (ea_id account) folder)],
       tasks := (tasks w)(next_task w \<mapsto> OpenMailbox_sync account folder),
       next_task := Suc (next_task w)\<rparr>"
  by (simp add: stmt_defs handler_defs)

lemma sync_settled:
  "tasks w k = Some (OpenMailbox_sync account folder) \<Longrightarrow>
   step lc (Settle_unit k r) w =
     w\<lparr>ui := (ui w)\<lparr>mailViewerLoading := True\<rparr>,
       trace := trace w @ (case r of Inl e \<Rightarrow> [Console_error e] | Inr u \<Rightarrow> []) @
         [Set_mailViewerLoading True, Invoke (Get_mail_records (ea_id account))],
       tasks := (tasks w)(k := None,
                  next_task w \<mapsto> LoadMailViewerRecords_get (ea_id account) folder),
       next_task := Suc (next_task w)\<rparr>"
  by (cases r) (simp_all add: stmt_defs handler_defs)

lemma load_settled:
  "tasks w k = Some (LoadMailViewerRecords_get emailId folder) \<Longrightarrow>
   step lc (Settle_records k r) w =
     w\<lparr>ui := (ui w)\<lparr>mailViewerRecords :=
                       (case r of Inl e \<Rightarrow> []
                        | Inr records \<Rightarrow> filterMailRecordsByFolder lc records folder),
                     mailViewerLoading := False\<rparr>,
       trace := trace w @
         (case r of Inl e \<Rightarrow> [Console_error e, Set_mailViewerRecords []]
          | Inr records \<Rightarrow>
              [Set_mailViewerRecords (filterMailRecordsByFolder lc records folder)]) @
         [Set_mailViewerLoading False],
       tasks := (tasks w)(k := None)\<rparr>"
  by (cases r) (simp_all add: stmt_defs handler_defs)

lemma load_resume_no_throw: "fst (loadMailViewerRecords_resume lc folder r w) = None"
  by (cases r) (simp_all add: stmt_defs handler_defs)

text \<open>Frame properties of one event: what it leaves as it was.\<close>

lemma frame_pair:
  "\<not> opens_or_closes e \<Longrightarrow>
     mailViewerEmail (ui (step lc e w)) = mailViewerEmail (ui w) \<and>
     mailViewerFolder (ui (step lc e w)) = mailViewerFolder (ui w)"
  by (cases e)
    (auto simp: stmt_defs handler_defs
      split: option.splits task.splits sum.splits list.splits)

lemma frame_records:
  "\<not> opens_or_closes e \<Longrightarrow> \<not> settles_records e \<Longrightarrow>
     mailViewerRecords (ui (step lc e w)) = mailViewerRecords (ui w)"
  by (cases e)
    (auto simp: stmt_defs handler_defs
      split: option.splits task.splits sum.splits list.splits)

lemma pending_stable:
  "tasks w k = Some t \<Longrightarrow> k < next_task w \<Longrightarrow> \<not> settles k e \<Longrightarrow>
     tasks (step lc e w) k = Some t \<and> k < next_task (step lc e w)"
  by (cases e)
    (auto simp: stmt_defs handler_defs
      split: option.splits task.splits sum.splits list.splits)

lemma trace_grows: "\<exists>mid. trace (step lc e w) = trace w @ mid"
  by (cases e)
    (auto simp: stmt_defs handler_defs
      split: option.splits task.splits sum.splits list.splits)

lemma step_distinct:
  "distinct (selectedIds (ui w)) \<Longrightarrow> distinct (selectedIds (ui (step lc e w)))"
  by (cases e)
    (auto simp: stmt_defs handler_defs array_from_set_distinct
      split: option.splits task.splits sum.splits list.splits)

text \<open>The same over a run of events.\<close>

lemma run_append: "run lc (es @ fs) w = run lc fs (run lc es w)"
  by (induction es arbitrary: w) simp_all

lemma frame_pair_run:
  "\<forall>e\<in>set es. \<not> opens_or_closes e \<Longrightarrow>
     mailViewerEmail (ui (run lc es w)) = mailViewerEmail (ui w) \<and>
     mailViewerFolder (ui (run lc es w)) = mailViewerFolder (ui w)"
  by (induction es arbitrary: w) (simp_all add: frame_pair)

lemma frame_records_run:
  "\<forall>e\<in>set es. \<not> opens_or_closes e \<and> \<not> settles_records e \<Longrightarrow>
     mailViewerRecords (ui (run lc es w)) = mailViewerRecords (ui w)"
  by (induction es arbitrary: w) (simp_all add: frame_records)

lemma pending_stable_run:
  "tasks w k = Some t \<Longrightarrow> k < next_task w \<Longrightarrow> \<forall>e\<in>set es. \<not> settles k e \<Longrightarrow>
     tasks (run lc es w) k = Some t \<and> k < next_task (run lc es w)"
proof (induction es arbitrary: w)
  case Nil
  then show ?case by simp
next
  case (Cons e es)
  from Cons.prems have "tasks (step lc e w) k = Some t \<and> k < next_task (step lc e w)"
    using pending_stable [of w k t e lc] by simp
  with Cons show ?case by simp
qed

lemma trace_grows_run: "\<exists>mid. trace (run lc es w) = trace w @ mid"
proof (induction es arbitrary: w)
  case Nil
  then show ?case by simp
next
  case (Cons e es)
  obtain m1 where m1: "trace (step lc e w) = trace w @ m1"
    using trace_grows by blast
  obtain m2 where "trace (run lc es (step lc e w)) = trace (step lc e w) @ m2"
    using Cons.IH by blast
  with m1 have "trace (run lc (e # es) w) = trace w @ (m1 @ m2)" by simp
  then show ?case by blast
qed

text \<open>
  The selection under navigation and under the two ways of deleting: navigation and the
  single delete leave it as it was, the batch delete empties it after its last call.
\<close>

lemma selection_persists:
  "navigates e \<Longrightarrow> selectedIds (ui (step lc e w)) = selectedIds (ui w)"
  by (cases e) (simp_all add: stmt_defs)

lemma handleDelete_frame:
  "selectedIds (ui (step lc (Click_delete idv confirmed) w)) = selectedIds (ui w)"
  "tasks w k = Some (Delete_invoke idv) \<Longrightarrow>
     selectedIds (ui (step lc (Settle_unit k r) w)) = selectedIds (ui w)"
  "tasks w k = Some LoadEmails_get \<Longrightarrow>
     selectedIds (ui (step lc (Settle_emails k r') w)) = selectedIds (ui w)"
  by (cases r; cases r'; simp add: stmt_defs handler_defs)+

lemma batch_delete_clears:
  "tasks w k = Some (BatchDelete_invoke []) \<Longrightarrow>
     selectedIds (ui (step lc (Settle_unit k r) w)) = []"
  by (cases r) (simp_all add: stmt_defs handler_defs)

section \<open>Lemmas on the toast\<close>

lemmas toast_defs = showToast_def dismissToast_def timer_fires_def setTimeout_def
  clearTimeout_def ref_truthy_def

lemma toast_inv_initial: "toast_inv initial_about"
  by (simp add: toast_inv_def initial_about_def)

lemma toast_inv_showToast: "toast_inv w \<Longrightarrow> toast_inv (showToast message duration w)"
  by (auto simp: toast_inv_def toast_defs Let_def split: option.splits)

lemma toast_inv_dismissToast: "toast_inv w \<Longrightarrow> toast_inv (dismissToast w)"
  by (auto simp: toast_inv_def toast_defs Let_def split: option.splits)

lemma toast_inv_timer_fires: "toast_inv w \<Longrightarrow> toast_inv (timer_fires h w)"
  by (auto simp: toast_inv_def toast_defs split: option.splits)

lemma toast_inv_step: "toast_inv w \<Longrightarrow> toast_inv (about_step e w)"
  by (cases e) (simp_all add: toast_inv_showToast toast_inv_dismissToast toast_inv_timer_fires)

lemma toast_inv_run: "toast_inv w \<Longrightarrow> toast_inv (about_run es w)"
  by (induction es arbitrary: w) (simp_all add: toast_inv_step)

lemma showToast_message: "toastMessage (showToast message duration w) = Some message"
  by (simp add: toast_defs Let_def split: prod.splits)

lemma showToast_timers:
  assumes "toast_inv w"
  shows "timers (showToast message duration w) =
           (if duration > 0 then [(next_handle w, duration)] else [])"
    and "toastTimerRef (showToast message duration w) =
           (if duration > 0 then Some (next_handle w) else None)"
  using assms by (auto simp: toast_inv_def toast_defs Let_def split: option.splits)

lemma timer_fires_idle: "timers w = [] \<Longrightarrow> timer_fires h w = w"
  by (simp add: timer_fires_def)

lemma timer_fires_absent: "h \<notin> fst ` set (timers w) \<Longrightarrow> timer_fires h w = w"
  by (simp add: timer_fires_def)

lemma timer_fires_pending:
  assumes "h \<in> fst ` set (timers w)"
  shows "toastMessage (timer_fires h w) = None"
    and "updateInfo (timer_fires h w) = None"
    and "toastTimerRef (timer_fires h w) = None"
    and "timers (timer_fires h w) = filter (\<lambda>t. fst t \<noteq> h) (timers w)"
  using assms by (simp_all add: timer_fires_def clearTimeout_def)

lemma dismissToast_clears:
  assumes "toast_inv w"
  shows "toastMessage (dismissToast w) = None"
    and "updateInfo (dismissToast w) = None"
    and "toastTimerRef (dismissToast w) = None"
    and "timers (dismissToast w) = []"
  using assms by (auto simp: toast_inv_def toast_defs Let_def split: option.splits)

lemma needles_nonempty:
  "junk_needle \<noteq> []" "spam_needle \<noteq> []" "laji_needle \<noteq> []"
  by (simp_all add: junk_needle_def spam_needle_def laji_needle_def ascii_def)

section \<open>Claims\<close>

subsection \<open>C1: completions of an earlier open\<close>

text \<open>
  Claim C1 as stated fails. Mailbox A is opened on INBOX and closed, mailbox B is opened on
  JUNK before A's load has completed, and A's load completes last: the viewer then shows
  account B and folder JUNK with the INBOX record of account A, which is none of B's
  records.
\<close>

theorem stale_guard_counterexample:
  "mailViewerEmail (ui (run asciiLower stale_events initial_world)) = Some accountB \<and>
   mailViewerFolder (ui (run asciiLower stale_events initial_world)) = JUNK \<and>
   mailViewerRecords (ui (run asciiLower stale_events initial_world)) = [recordA] \<and>
   mr_email_id recordA = ea_id accountA \<and>
   filterMailRecordsByFolder asciiLower [recordB] JUNK = [recordB] \<and>
   recordA \<noteq> recordB"
  by (simp add: world_defs stmt_defs handler_defs example_defs classify_defs)

text \<open>
  Claim C1, amended. After an open of \<open>(b, fb)\<close> that no later open or close follows, the
  visible account and folder are \<open>b\<close> and \<open>fb\<close>, whatever completes in between. The
  visible records are those of the load that completes last: the completion of any load
  in flight, for whatever account and folder \<open>(i, f)\<close> it was issued, commits its records
  filtered by its own folder \<open>f\<close> (or the empty list when it failed), and nothing
  compares \<open>(i, f)\<close> with \<open>(b, fb)\<close>.
\<close>

theorem stale_completion_commits:
  assumes "\<forall>e\<in>set es2 \<union> set es3. \<not> opens_or_closes e"
    and "\<forall>e\<in>set es3. \<not> settles_records e"
    and "tasks (run lc (es1 @ Click_open b fb # es2) w) k = Some (LoadMailViewerRecords_get i f)"
  shows "mailViewerEmail
           (ui (run lc (es1 @ Click_open b fb # es2 @ Settle_records k r # es3) w)) = Some b \<and>
         mailViewerFolder
           (ui (run lc (es1 @ Click_open b fb # es2 @ Settle_records k r # es3) w)) = fb \<and>
         mailViewerRecords
           (ui (run lc (es1 @ Click_open b fb # es2 @ Settle_records k r # es3) w)) =
           (case r of Inl e \<Rightarrow> [] | Inr records \<Rightarrow> filterMailRecordsByFolder lc records f)"
proof -
  define w1 where "w1 = step lc (Click_open b fb) (run lc es1 w)"
  define w2 where "w2 = run lc es2 w1"
  define w3 where "w3 = step lc (Settle_records k r) w2"
  have final: "run lc (es1 @ Click_open b fb # es2 @ Settle_records k r # es3) w = run lc es3 w3"
    by (simp add: run_append w1_def w2_def w3_def)
  have pending: "tasks w2 k = Some (LoadMailViewerRecords_get i f)"
    using assms(3) by (simp add: run_append w1_def w2_def)
  have p1: "mailViewerEmail (ui w1) = Some b \<and> mailViewerFolder (ui w1) = fb"
    by (simp add: w1_def open_click del: step.simps)
  have p2: "mailViewerEmail (ui w2) = Some b \<and> mailViewerFolder (ui w2) = fb"
    using assms(1) p1 frame_pair_run [of es2 lc w1] by (simp add: w2_def)
  have p3: "mailViewerEmail (ui w3) = Some b \<and> mailViewerFolder (ui w3) = fb"
    using p2 by (simp add: w3_def load_settled [OF pending] del: step.simps)
  have r3: "mailViewerRecords (ui w3) =
      (case r of Inl e \<Rightarrow> [] | Inr records \<Rightarrow> filterMailRecordsByFolder lc records f)"
    by (simp add: w3_def load_settled [OF pending] del: step.simps)
  have p4: "mailViewerEmail (ui (run lc es3 w3)) = Some b \<and>
      mailViewerFolder (ui (run lc es3 w3)) = fb"
    using assms(1) p3 frame_pair_run [of es3 lc w3] by simp
  have r4: "mailViewerRecords (ui (run lc es3 w3)) = mailViewerRecords (ui w3)"
    using assms(1,2) frame_records_run [of es3 lc w3] by simp
  show ?thesis using final p4 r4 r3 by simp
qed

text \<open>
  The amended claim at the run of the counterexample: task 2 is the load of account 1 on
  INBOX, in flight while account B is open on JUNK, and its completion is the last event.
\<close>

theorem stale_completion_commits_witness:
  "tasks (run asciiLower (stale_prefix @ Click_open accountB JUNK # stale_middle) initial_world) 2 =
     Some (LoadMailViewerRecords_get 1 INBOX) \<and>
   mailViewerEmail (ui (run asciiLower stale_events initial_world)) = Some accountB \<and>
   mailViewerFolder (ui (run asciiLower stale_events initial_world)) = JUNK \<and>
   mailViewerRecords (ui (run asciiLower stale_events initial_world)) =
     filterMailRecordsByFolder asciiLower [recordA] INBOX"
proof -
  have h1: "\<forall>e\<in>set stale_middle \<union> set []. \<not> opens_or_closes e"
    by (simp add: stale_middle_def)
  have h2: "\<forall>e\<in>set []. \<not> settles_records e"
    by simp
  have h3: "tasks (run asciiLower (stale_prefix @ Click_open accountB JUNK # stale_middle)
                initial_world) 2 = Some (LoadMailViewerRecords_get 1 INBOX)"
    by (simp add: world_defs stmt_defs handler_defs example_defs classify_defs)
  from stale_completion_commits [OF h1 h2 h3, of "Inr [recordA]"]
  have "mailViewerEmail (ui (run asciiLower stale_events initial_world)) = Some accountB \<and>
      mailViewerFolder (ui (run asciiLower stale_events initial_world)) = JUNK \<and>
      mailViewerRecords (ui (run asciiLower stale_events initial_world)) =
        filterMailRecordsByFolder asciiLower [recordA] INBOX"
    by (simp add: stale_events_def del: run.simps)
  with h3 show ?thesis by blast
qed

subsection \<open>C2: the selection after a delete\<close>

text \<open>
  Claim C2, at the input where the code departs from it. Accounts 3 and 7 are listed and
  selected; account 3 is deleted with the delete button of its row, the deletion succeeds
  and the list is reloaded without it. Id 3 is still in the selection.
\<close>

theorem handleDelete_keeps_selection:
  "selectedIds (ui selected_world) = [3, 7] \<and>
   map ea_id (emails (ui selected_world)) = [3, 7] \<and>
   selectedIds (ui (run asciiLower
      [Click_delete 3 True, Settle_unit 1 (Inr ()), Settle_emails 2 (Inr [account7])]
      selected_world)) = [3, 7] \<and>
   map ea_id (emails (ui (run asciiLower
      [Click_delete 3 True, Settle_unit 1 (Inr ()), Settle_emails 2 (Inr [account7])]
      selected_world))) = [7]"
  by (simp add: world_defs stmt_defs handler_defs example_defs)

subsection \<open>C3: the page window\<close>

text \<open>
  Claim C3. For a total of at least one page and a current page between one and the
  total, \<open>buildPageItems\<close> returns the window of the specification: all pages and no
  ellipsis up to seven pages, and beyond seven the window of the first pages, of the last
  pages or of the pages around the current one; with the three windows the specification
  gives for ten pages.
\<close>

theorem buildPageItems_window:
  assumes "1 \<le> total_n" and "1 \<le> current_n" and "current_n \<le> total_n"
  shows "buildPageItems total_n current_n = buildPageWindow_spec total_n current_n \<and>
         (total_n \<le> 7 \<longrightarrow>
            buildPageItems total_n current_n = map Page [1..total_n] \<and>
            length (buildPageItems total_n current_n) = nat total_n \<and>
            Ellipsis \<notin> set (buildPageItems total_n current_n)) \<and>
         (7 < total_n \<and> current_n \<le> 3 \<longrightarrow>
            buildPageItems total_n current_n =
              [Page 1, Page 2, Page 3, Page 4, Ellipsis, Page total_n]) \<and>
         (7 < total_n \<and> 3 < current_n \<and> total_n - 2 \<le> current_n \<longrightarrow>
            buildPageItems total_n current_n =
              [Page 1, Ellipsis, Page (total_n - 3), Page (total_n - 2),
               Page (total_n - 1), Page total_n]) \<and>
         (7 < total_n \<and> 3 < current_n \<and> current_n < total_n - 2 \<longrightarrow>
            buildPageItems total_n current_n =
              [Page 1, Ellipsis, Page (current_n - 1), Page current_n,
               Page (current_n + 1), Ellipsis, Page total_n]) \<and>
         buildPageItems 10 1 = [Page 1, Page 2, Page 3, Page 4, Ellipsis, Page 10] \<and>
         buildPageItems 10 9 = [Page 1, Ellipsis, Page 7, Page 8, Page 9, Page 10] \<and>
         buildPageItems 10 5 = [Page 1, Ellipsis, Page 4, Page 5, Page 6, Ellipsis, Page 10]"
proof -
  have small: "buildPageItems total_n current_n = map Page [1..total_n]"
    if "total_n \<le> 7"
    using that by (simp add: buildPageItems_def array_from_upto)
  have len: "length (buildPageItems total_n current_n) = nat total_n"
    if "total_n \<le> 7"
    using that by (simp add: buildPageItems_def)
  have noell: "Ellipsis \<notin> set (buildPageItems total_n current_n)" if "total_n \<le> 7"
    using that by (auto simp: buildPageItems_def)
  have low: "7 < total_n \<and> current_n \<le> 3 \<longrightarrow>
      buildPageItems total_n current_n =
        [Page 1, Page 2, Page 3, Page 4, Ellipsis, Page total_n]"
    by (simp add: buildPageItems_def)
  have high: "7 < total_n \<and> 3 < current_n \<and> total_n - 2 \<le> current_n \<longrightarrow>
      buildPageItems total_n current_n =
        [Page 1, Ellipsis, Page (total_n - 3), Page (total_n - 2), Page (total_n - 1),
         Page total_n]"
    by (simp add: buildPageItems_def)
  have middle: "7 < total_n \<and> 3 < current_n \<and> current_n < total_n - 2 \<longrightarrow>
      buildPageItems total_n current_n =
        [Page 1, Ellipsis, Page (current_n - 1), Page current_n, Page (current_n + 1),
         Ellipsis, Page total_n]"
    by (simp add: buildPageItems_def)
  have ex1: "buildPageItems 10 1 = [Page 1, Page 2, Page 3, Page 4, Ellipsis, Page 10]"
    by (simp add: buildPageItems_def)
  have ex2: "buildPageItems 10 9 = [Page 1, Ellipsis, Page 7, Page 8, Page 9, Page 10]"
    by (simp add: buildPageItems_def)
  have ex3: "buildPageItems 10 5 = [Page 1, Ellipsis, Page 4, Page 5, Page 6, Ellipsis, Page 10]"
    by (simp add: buildPageItems_def)
  from buildPageItems_refines small len noell low high middle ex1 ex2 ex3
  show ?thesis by blast
qed

theorem buildPageItems_window_witness:
  "(1::int) \<le> 12 \<and> (1::int) \<le> 6 \<and> (6::int) \<le> 12 \<and>
   buildPageItems 12 6 = buildPageWindow_spec 12 6 \<and>
   buildPageItems 12 6 = [Page 1, Ellipsis, Page 5, Page 6, Page 7, Ellipsis, Page 12]"
  using buildPageItems_window [of 12 6] by (simp add: buildPageWindow_spec_def)

subsection \<open>C4: a load that fails\<close>

text \<open>
  Claim C4. When the load in flight fails, the viewer holds no records and is not
  loading; and whatever the load resolves to, the viewer is not loading afterwards, the
  resumed function ends without throwing and no rejection is left unhandled.
\<close>

theorem load_failure_settles:
  assumes "tasks w k = Some (LoadMailViewerRecords_get emailId folder)"
  shows "mailViewerRecords (ui (step lc (Settle_records k (Inl err)) w)) = [] \<and>
         \<not> mailViewerLoading (ui (step lc (Settle_records k (Inl err)) w)) \<and>
         (\<forall>res. \<not> mailViewerLoading (ui (step lc (Settle_records k res) w)) \<and>
                unhandled (step lc (Settle_records k res) w) = unhandled w \<and>
                fst (loadMailViewerRecords_resume lc folder res (finish k w)) = None)"
  by (simp add: load_settled [OF assms] load_resume_no_throw del: step.simps)

theorem load_failure_settles_witness:
  "tasks loading_world 1 = Some (LoadMailViewerRecords_get 1 INBOX) \<and>
   mailViewerLoading (ui loading_world) \<and>
   mailViewerRecords
     (ui (step asciiLower (Settle_records 1 (Inl (Error (ascii ''db'')))) loading_world)) = [] \<and>
   \<not> mailViewerLoading
     (ui (step asciiLower (Settle_records 1 (Inl (Error (ascii ''db'')))) loading_world))"
proof -
  have h: "tasks loading_world 1 = Some (LoadMailViewerRecords_get 1 INBOX)"
    by (simp add: world_defs stmt_defs handler_defs example_defs)
  have l: "mailViewerLoading (ui loading_world)"
    by (simp add: world_defs stmt_defs handler_defs example_defs)
  from load_failure_settles [OF h, of asciiLower "Error (ascii ''db'')"] h l show ?thesis
    by blast
qed

subsection \<open>C5: a sync that fails\<close>

text \<open>
  Claim C5. When the sync of an opened mailbox fails, the state of the component, the
  tasks in flight and the unhandled rejections are what they are when it succeeds: only
  \<open>console.error\<close> is called in addition. In both cases the load of the cached records is
  issued and left in flight, and when it resolves the viewer holds the same state, with
  the records of the folder and without the loading flag.
\<close>

theorem sync_failure_best_effort:
  assumes "tasks w k = Some (OpenMailbox_sync account folder)"
  shows "ui (step lc (Settle_unit k (Inl err)) w) = ui (step lc (Settle_unit k (Inr ())) w) \<and>
         ui (step lc (Settle_unit k (Inl err)) w) = (ui w)\<lparr>mailViewerLoading := True\<rparr> \<and>
         tasks (step lc (Settle_unit k (Inl err)) w) = tasks (step lc (Settle_unit k (Inr ())) w) \<and>
         unhandled (step lc (Settle_unit k (Inl err)) w) = unhandled w \<and>
         trace (step lc (Settle_unit k (Inl err)) w) =
           trace w @ [Console_error err, Set_mailViewerLoading True,
                      Invoke (Get_mail_records (ea_id account))] \<and>
         trace (step lc (Settle_unit k (Inr ())) w) =
           trace w @ [Set_mailViewerLoading True, Invoke (Get_mail_records (ea_id account))] \<and>
         tasks (step lc (Settle_unit k (Inl err)) w) (next_task w) =
           Some (LoadMailViewerRecords_get (ea_id account) folder) \<and>
         (\<forall>res. ui (step lc (Settle_records (next_task w) res)
                      (step lc (Settle_unit k (Inl err)) w)) =
                ui (step lc (Settle_records (next_task w) res)
                      (step lc (Settle_unit k (Inr ())) w)) \<and>
                mailViewerRecords
                  (ui (step lc (Settle_records (next_task w) res)
                         (step lc (Settle_unit k (Inl err)) w))) =
                  (case res of Inl e \<Rightarrow> []
                   | Inr records \<Rightarrow> filterMailRecordsByFolder lc records folder) \<and>
                \<not> mailViewerLoading
                  (ui (step lc (Settle_records (next_task w) res)
                         (step lc (Settle_unit k (Inl err)) w))))"
proof -
  define wf where "wf = step lc (Settle_unit k (Inl err)) w"
  define ws where "ws = step lc (Settle_unit k (Inr ())) w"
  have wf: "wf = w\<lparr>ui := (ui w)\<lparr>mailViewerLoading := True\<rparr>,
       trace := trace w @ [Console_error err, Set_mailViewerLoading True,
                           Invoke (Get_mail_records (ea_id account))],
       tasks := (tasks w)(k := None,
                  next_task w \<mapsto> LoadMailViewerRecords_get (ea_id account) folder),
       next_task := Suc (next_task w)\<rparr>"
    unfolding wf_def by (simp add: sync_settled [OF assms] del: step.simps)
  have ws: "ws = w\<lparr>ui := (ui w)\<lparr>mailViewerLoading := True\<rparr>,
       trace := trace w @ [Set_mailViewerLoading True,
                           Invoke (Get_mail_records (ea_id account))],
       tasks := (tasks w)(k := None,
                  next_task w \<mapsto> LoadMailViewerRecords_get (ea_id account) folder),
       next_task := Suc (next_task w)\<rparr>"
    unfolding ws_def by (simp add: sync_settled [OF assms] del: step.simps)
  have pf: "tasks wf (next_task w) = Some (LoadMailViewerRecords_get (ea_id account) folder)"
    by (simp add: wf)
  have ps: "tasks ws (next_task w) = Some (LoadMailViewerRecords_get (ea_id account) folder)"
    by (simp add: ws)
  have same: "ui wf = ui ws" "tasks wf = tasks ws" "ui wf = (ui w)\<lparr>mailViewerLoading := True\<rparr>"
    "unhandled wf = unhandled w"
    by (simp_all add: wf ws)
  have tr: "trace wf = trace w @ [Console_error err, Set_mailViewerLoading True,
                      Invoke (Get_mail_records (ea_id account))]"
    "trace ws = trace w @ [Set_mailViewerLoading True, Invoke (Get_mail_records (ea_id account))]"
    by (simp_all add: wf ws)
  have after: "ui (step lc (Settle_records (next_task w) res) wf) =
                ui (step lc (Settle_records (next_task w) res) ws) \<and>
               mailViewerRecords (ui (step lc (Settle_records (next_task w) res) wf)) =
                  (case res of Inl e \<Rightarrow> []
                   | Inr records \<Rightarrow> filterMailRecordsByFolder lc records folder) \<and>
               \<not> mailViewerLoading (ui (step lc (Settle_records (next_task w) res) wf))" for res
    by (simp add: load_settled [OF pf] load_settled [OF ps] same del: step.simps)
  from same tr pf after show ?thesis
    unfolding wf_def ws_def by blast
qed

theorem sync_failure_best_effort_witness:
  "tasks syncing_world 0 = Some (OpenMailbox_sync accountA INBOX) \<and>
   ui (step asciiLower (Settle_unit 0 (Inl (Error (ascii ''offline'')))) syncing_world) =
     ui (step asciiLower (Settle_unit 0 (Inr ())) syncing_world) \<and>
   tasks (step asciiLower (Settle_unit 0 (Inl (Error (ascii ''offline'')))) syncing_world) 1 =
     Some (LoadMailViewerRecords_get 1 INBOX)"
proof -
  have h: "tasks syncing_world 0 = Some (OpenMailbox_sync accountA INBOX)"
    by (simp add: world_defs stmt_defs handler_defs)
  have n: "next_task syncing_world = 1" "ea_id accountA = 1"
    by (simp_all add: world_defs stmt_defs handler_defs example_defs)
  note t = sync_failure_best_effort [OF h, of asciiLower "Error (ascii ''offline'')"]
  from t have a:
    "ui (step asciiLower (Settle_unit 0 (Inl (Error (ascii ''offline'')))) syncing_world) =
     ui (step asciiLower (Settle_unit 0 (Inr ())) syncing_world)"
    by blast
  from t have
    "tasks (step asciiLower (Settle_unit 0 (Inl (Error (ascii ''offline'')))) syncing_world)
      (next_task syncing_world) = Some (LoadMailViewerRecords_get (ea_id accountA) INBOX)"
    by blast
  with n have b:
    "tasks (step asciiLower (Settle_unit 0 (Inl (Error (ascii ''offline'')))) syncing_world) 1 =
     Some (LoadMailViewerRecords_get 1 INBOX)"
    by (simp del: step.simps)
  from h a b show ?thesis by blast
qed

subsection \<open>C6: the order of the steps of an open\<close>

text \<open>
  Claim C6. When the handler of an open is suspended at its first await, and so before
  any call has completed, the viewer holds no records, is loading, and has the chosen
  account and folder. The handler has by then cleared the records and set the loading
  flag, in this order, before it issued the sync call, which is the last thing it did;
  and the load call is issued only when that sync call completes, after whatever other
  events came in between.
\<close>

theorem open_ordering:
  assumes "\<forall>e\<in>set es. \<not> settles (next_task w) e"
  shows "mailViewerRecords (ui (step lc (Click_open account folder) w)) = [] \<and>
         mailViewerLoading (ui (step lc (Click_open account folder) w)) \<and>
         mailViewerEmail (ui (step lc (Click_open account folder) w)) = Some account \<and>
         mailViewerFolder (ui (step lc (Click_open account folder) w)) = folder \<and>
         trace (step lc (Click_open account folder) w) =
           trace w @
           [Set_mailViewerEmail (Some account), Set_mailViewerFolder folder,
            Set_mailViewerRecords [], Set_mailViewerOpen True, Set_mailViewerLoading True,
            Invoke (Check_outlook_email (ea_id account) folder)] \<and>
         (\<exists>mid. trace (step lc (Settle_unit (next_task w) r)
                        (run lc es (step lc (Click_open account folder) w))) =
                trace (step lc (Click_open account folder) w) @ mid @
                (case r of Inl e \<Rightarrow> [Console_error e] | Inr u \<Rightarrow> []) @
                [Set_mailViewerLoading True, Invoke (Get_mail_records (ea_id account))])"
proof -
  define w1 where "w1 = step lc (Click_open account folder) w"
  have w1: "w1 = w\<lparr>ui := (ui w)\<lparr>mailViewerEmail := Some account, mailViewerFolder := folder,
                     mailViewerRecords := [], mailViewerOpen := True,
                     mailViewerLoading := True\<rparr>,
       trace := trace w @
         [Set_mailViewerEmail (Some account), Set_mailViewerFolder folder,
          Set_mailViewerRecords [], Set_mailViewerOpen True, Set_mailViewerLoading True,
          Invoke (Check_outlook_email (ea_id account) folder)],
       tasks := (tasks w)(next_task w \<mapsto> OpenMailbox_sync account folder),
       next_task := Suc (next_task w)\<rparr>"
    unfolding w1_def by (rule open_click)
  have first: "mailViewerRecords (ui w1) = []" "mailViewerLoading (ui w1)"
    "mailViewerEmail (ui w1) = Some account" "mailViewerFolder (ui w1) = folder"
    "trace w1 = trace w @
           [Set_mailViewerEmail (Some account), Set_mailViewerFolder folder,
            Set_mailViewerRecords [], Set_mailViewerOpen True, Set_mailViewerLoading True,
            Invoke (Check_outlook_email (ea_id account) folder)]"
    by (simp_all add: w1)
  have "tasks w1 (next_task w) = Some (OpenMailbox_sync account folder)"
    "next_task w < next_task w1"
    by (simp_all add: w1)
  with assms have pending:
    "tasks (run lc es w1) (next_task w) = Some (OpenMailbox_sync account folder)"
    using pending_stable_run [of w1 "next_task w" _ es lc] by simp
  obtain mid where mid: "trace (run lc es w1) = trace w1 @ mid"
    using trace_grows_run by blast
  have "trace (step lc (Settle_unit (next_task w) r) (run lc es w1)) =
      trace w1 @ mid @ (case r of Inl e \<Rightarrow> [Console_error e] | Inr u \<Rightarrow> []) @
        [Set_mailViewerLoading True, Invoke (Get_mail_records (ea_id account))]"
    by (simp add: sync_settled [OF pending] mid del: step.simps)
  then have "\<exists>mid. trace (step lc (Settle_unit (next_task w) r) (run lc es w1)) =
      trace w1 @ mid @ (case r of Inl e \<Rightarrow> [Console_error e] | Inr u \<Rightarrow> []) @
        [Set_mailViewerLoading True, Invoke (Get_mail_records (ea_id account))]"
    by blast
  with first show ?thesis unfolding w1_def by blast
qed

theorem open_ordering_witness:
  "mailViewerRecords (ui (step asciiLower (Click_open accountA INBOX) initial_world)) = [] \<and>
   mailViewerLoading (ui (step asciiLower (Click_open accountA INBOX) initial_world)) \<and>
   trace (step asciiLower (Settle_unit 0 (Inr ()))
            (run asciiLower [Click_prev, Toggle_row 3]
               (step asciiLower (Click_open accountA INBOX) initial_world))) =
     [Set_mailViewerEmail (Some accountA), Set_mailViewerFolder INBOX,
      Set_mailViewerRecords [], Set_mailViewerOpen True, Set_mailViewerLoading True,
      Invoke (Check_outlook_email 1 INBOX), Set_currentPage 1, Set_selectedIds [3],
      Set_mailViewerLoading True, Invoke (Get_mail_records 1)]"
proof -
  have h: "\<forall>e\<in>set [Click_prev, Toggle_row 3]. \<not> settles (next_task initial_world) e"
    by simp
  have t: "trace (step asciiLower (Settle_unit 0 (Inr ()))
            (run asciiLower [Click_prev, Toggle_row 3]
               (step asciiLower (Click_open accountA INBOX) initial_world))) =
     [Set_mailViewerEmail (Some accountA), Set_mailViewerFolder INBOX,
      Set_mailViewerRecords [], Set_mailViewerOpen True, Set_mailViewerLoading True,
      Invoke (Check_outlook_email 1 INBOX), Set_currentPage 1, Set_selectedIds [3],
      Set_mailViewerLoading True, Invoke (Get_mail_records 1)]"
    by (simp add: world_defs stmt_defs handler_defs example_defs)
  from open_ordering [OF h, of asciiLower accountA INBOX "Inr ()"] t show ?thesis
    by blast
qed

subsection \<open>C7: the folder classifier\<close>

text \<open>
  Claim C7. For a lower-casing that maps the empty string to itself, \<open>normalizeFolder\<close>
  returns JUNK exactly for a folder string that, trimmed and lower-cased, contains one
  of the three terms, and INBOX for every other input, among them the missing folder and
  the empty string. It is a function of the raw folder alone, so the same folder always
  has the same tag.
\<close>

theorem normalizeFolder_total:
  assumes "toLowerCase [] = []"
  shows "(normalizeFolder toLowerCase raw = JUNK \<longleftrightarrow>
            (\<exists>f. raw = Some f \<and>
                 (\<exists>needle\<in>{junk_needle, spam_needle, laji_needle}.
                    \<exists>p q. toLowerCase (trim f) = p @ needle @ q))) \<and>
         (normalizeFolder toLowerCase raw = INBOX \<longleftrightarrow>
            \<not> (\<exists>f. raw = Some f \<and>
                 (\<exists>needle\<in>{junk_needle, spam_needle, laji_needle}.
                    \<exists>p q. toLowerCase (trim f) = p @ needle @ q))) \<and>
         normalizeFolder toLowerCase None = INBOX \<and>
         normalizeFolder toLowerCase (Some []) = INBOX"
proof -
  have empty: "\<not> js_includes (toLowerCase (trim [])) n" if "n \<noteq> []" for n :: jsstring
    using that assms by (simp add: trim_Nil)
  have junk: "normalizeFolder toLowerCase raw = JUNK \<longleftrightarrow>
      (\<exists>f. raw = Some f \<and>
           (\<exists>needle\<in>{junk_needle, spam_needle, laji_needle}.
              \<exists>p q. toLowerCase (trim f) = p @ needle @ q))"
  proof (cases raw)
    case None
    then show ?thesis by (simp add: normalizeFolder_def)
  next
    case (Some f)
    show ?thesis
    proof (cases "f = []")
      case True
      with Some empty needles_nonempty show ?thesis
        by (simp add: normalizeFolder_def includes_iff [symmetric])
    next
      case False
      with Some show ?thesis
        by (simp add: normalizeFolder_def Let_def includes_iff [symmetric])
    qed
  qed
  have inbox: "normalizeFolder toLowerCase raw = INBOX \<longleftrightarrow>
      normalizeFolder toLowerCase raw \<noteq> JUNK"
    by (cases "normalizeFolder toLowerCase raw") simp_all
  show ?thesis
    using junk inbox by (simp add: normalizeFolder_def)
qed

theorem normalizeFolder_total_witness:
  "asciiLower [] = [] \<and> normalizeFolder asciiLower (Some (ascii '' Junk Email '')) = JUNK"
proof -
  have h: "asciiLower [] = []" by (simp add: asciiLower_def)
  have "asciiLower (trim (ascii '' Junk Email '')) = [] @ junk_needle @ ascii '' email''"
    by (simp add: classify_defs)
  then have "\<exists>f. Some (ascii '' Junk Email '') = Some f \<and>
       (\<exists>needle\<in>{junk_needle, spam_needle, laji_needle}.
          \<exists>p q. asciiLower (trim f) = p @ needle @ q)"
    by blast
  with normalizeFolder_total [of asciiLower "Some (ascii '' Junk Email '')"] h show ?thesis
    by blast
qed

subsection \<open>C8: the toast\<close>

text \<open>
  Claim C8. In every state the About page reaches, \<open>showToast\<close> puts its message into
  the one message cell, so that this message and no other is shown; the timer that was
  pending is no longer pending afterwards, and its handle firing changes nothing. A
  positive duration leaves exactly one timer pending, with that delay, and when that
  timer fires it dismisses the toast: the message and the update information are
  cleared, nothing is shown, and no timer is left; no other handle does anything. A zero
  duration leaves no timer, so that no timer firing changes the toast, which stays
  until \<open>dismissToast\<close> clears the message, the update information and the timer. After
  a toast of 2000 ms followed by a toast of duration zero the second message is in the
  cell, no timer is pending, and no timer that fires changes anything.
\<close>

theorem showToast_single_slot:
  assumes "w = about_run es initial_about"
  shows "toastMessage (showToast message duration w) = Some message \<and>
         visible_toast (showToast message duration w) =
           (if message = [] then None else Some message) \<and>
         (\<forall>h. toastTimerRef w = Some h \<longrightarrow>
              h \<notin> fst ` set (timers (showToast message duration w))) \<and>
         (duration > 0 \<longrightarrow>
            timers (showToast message duration w) = [(next_handle w, duration)] \<and>
            toastTimerRef (showToast message duration w) = Some (next_handle w)) \<and>
         (duration = 0 \<longrightarrow>
            timers (showToast message duration w) = [] \<and>
            toastTimerRef (showToast message duration w) = None) \<and>
         toastMessage (showToast y 0 (showToast x 2000 w)) = Some y \<and>
         timers (showToast y 0 (showToast x 2000 w)) = [] \<and>
         toastTimerRef (showToast y 0 (showToast x 2000 w)) = None \<and>
         (\<forall>h. timer_fires h (showToast y 0 (showToast x 2000 w)) =
              showToast y 0 (showToast x 2000 w)) \<and>
         (duration > 0 \<longrightarrow>
            toastMessage (timer_fires (next_handle w) (showToast message duration w)) = None \<and>
            visible_toast (timer_fires (next_handle w) (showToast message duration w)) = None \<and>
            updateInfo (timer_fires (next_handle w) (showToast message duration w)) = None \<and>
            toastTimerRef (timer_fires (next_handle w) (showToast message duration w)) = None \<and>
            timers (timer_fires (next_handle w) (showToast message duration w)) = [] \<and>
            (\<forall>h. h \<noteq> next_handle w \<longrightarrow>
                 timer_fires h (showToast message duration w) = showToast message duration w)) \<and>
         (duration = 0 \<longrightarrow>
            (\<forall>h. timer_fires h (showToast message duration w) = showToast message duration w)) \<and>
         (\<forall>h. toastTimerRef w = Some h \<longrightarrow>
              timer_fires h (showToast message duration w) = showToast message duration w) \<and>
         toastMessage (dismissToast (showToast message duration w)) = None \<and>
         visible_toast (dismissToast (showToast message duration w)) = None \<and>
         updateInfo (dismissToast (showToast message duration w)) = None \<and>
         toastTimerRef (dismissToast (showToast message duration w)) = None \<and>
         timers (dismissToast (showToast message duration w)) = []"
proof -
  have inv: "toast_inv w"
    using assms toast_inv_initial toast_inv_run by simp
  have inv1: "toast_inv (showToast message duration w)"
    using inv by (rule toast_inv_showToast)
  have old: "h \<notin> fst ` set (timers (showToast message duration w))"
    if "toastTimerRef w = Some h" for h
    using inv that by (auto simp: showToast_timers toast_inv_def)
  have vis: "visible_toast (showToast message duration w) =
           (if message = [] then None else Some message)"
    by (simp add: visible_toast_def showToast_message)
  have inv2: "toast_inv (showToast x 2000 w)"
    using inv by (rule toast_inv_showToast)
  have last: "timers (showToast y 0 (showToast x 2000 w)) = []"
    "toastTimerRef (showToast y 0 (showToast x 2000 w)) = None"
    using showToast_timers [OF inv2, of y 0] by simp_all
  have idle: "timer_fires h (showToast y 0 (showToast x 2000 w)) =
              showToast y 0 (showToast x 2000 w)" for h
    using last by (simp add: timer_fires_idle)
  have pos: "duration > 0 \<longrightarrow>
            timers (showToast message duration w) = [(next_handle w, duration)] \<and>
            toastTimerRef (showToast message duration w) = Some (next_handle w)"
    using showToast_timers [OF inv, of message duration] by simp
  have zero: "duration = 0 \<longrightarrow>
            timers (showToast message duration w) = [] \<and>
            toastTimerRef (showToast message duration w) = None"
    using showToast_timers [OF inv, of message 0] by simp
  have msg: "toastMessage (showToast message duration w) = Some message"
    "toastMessage (showToast y 0 (showToast x 2000 w)) = Some y"
    by (simp_all add: showToast_message)
  have old': "\<forall>h. toastTimerRef w = Some h \<longrightarrow>
              h \<notin> fst ` set (timers (showToast message duration w))"
    using old by blast
  have idle': "\<forall>h. timer_fires h (showToast y 0 (showToast x 2000 w)) =
              showToast y 0 (showToast x 2000 w)"
    using idle by blast
  have fires: "duration > 0 \<longrightarrow>
      toastMessage (timer_fires (next_handle w) (showToast message duration w)) = None \<and>
      visible_toast (timer_fires (next_handle w) (showToast message duration w)) = None \<and>
      updateInfo (timer_fires (next_handle w) (showToast message duration w)) = None \<and>
      toastTimerRef (timer_fires (next_handle w) (showToast message duration w)) = None \<and>
      timers (timer_fires (next_handle w) (showToast message duration w)) = [] \<and>
      (\<forall>h. h \<noteq> next_handle w \<longrightarrow>
           timer_fires h (showToast message duration w) = showToast message duration w)"
  proof
    assume d: "duration > 0"
    with pos have t: "timers (showToast message duration w) = [(next_handle w, duration)]"
      by simp
    then have pending: "next_handle w \<in> fst ` set (timers (showToast message duration w))"
      by simp
    have m: "toastMessage (timer_fires (next_handle w) (showToast message duration w)) = None"
      using pending by (rule timer_fires_pending(1))
    have u: "updateInfo (timer_fires (next_handle w) (showToast message duration w)) = None"
      using pending by (rule timer_fires_pending(2))
    have r: "toastTimerRef (timer_fires (next_handle w) (showToast message duration w)) = None"
      using pending by (rule timer_fires_pending(3))
    have "timers (timer_fires (next_handle w) (showToast message duration w)) =
        filter (\<lambda>t. fst t \<noteq> next_handle w) (timers (showToast message duration w))"
      using pending by (rule timer_fires_pending(4))
    with t have e: "timers (timer_fires (next_handle w) (showToast message duration w)) = []"
      by simp
    have v: "visible_toast (timer_fires (next_handle w) (showToast message duration w)) = None"
      using m by (simp add: visible_toast_def)
    have other: "timer_fires h (showToast message duration w) = showToast message duration w"
      if "h \<noteq> next_handle w" for h
      using that t by (simp add: timer_fires_absent)
    from m v u r e other show
      "toastMessage (timer_fires (next_handle w) (showToast message duration w)) = None \<and>
       visible_toast (timer_fires (next_handle w) (showToast message duration w)) = None \<and>
       updateInfo (timer_fires (next_handle w) (showToast message duration w)) = None \<and>
       toastTimerRef (timer_fires (next_handle w) (showToast message duration w)) = None \<and>
       timers (timer_fires (next_handle w) (showToast message duration w)) = [] \<and>
       (\<forall>h. h \<noteq> next_handle w \<longrightarrow>
            timer_fires h (showToast message duration w) = showToast message duration w)"
      by blast
  qed
  have stays: "duration = 0 \<longrightarrow>
      (\<forall>h. timer_fires h (showToast message duration w) = showToast message duration w)"
    using zero by (simp add: timer_fires_idle)
  have cancelled: "\<forall>h. toastTimerRef w = Some h \<longrightarrow>
      timer_fires h (showToast message duration w) = showToast message duration w"
    using old by (simp add: timer_fires_absent)
  have dm: "toastMessage (dismissToast (showToast message duration w)) = None"
    using inv1 by (rule dismissToast_clears(1))
  have du: "updateInfo (dismissToast (showToast message duration w)) = None"
    using inv1 by (rule dismissToast_clears(2))
  have dr: "toastTimerRef (dismissToast (showToast message duration w)) = None"
    using inv1 by (rule dismissToast_clears(3))
  have dt: "timers (dismissToast (showToast message duration w)) = []"
    using inv1 by (rule dismissToast_clears(4))
  have dv: "visible_toast (dismissToast (showToast message duration w)) = None"
    using dm by (simp add: visible_toast_def)
  show ?thesis
    by (intro conjI)
      (rule msg vis old' pos zero last idle' fires stays cancelled dm dv du dr dt)+
qed

text \<open>
  Claim C8 at the two toasts of the specification, from the initial state: the first
  toast installs timer 1 with 2000 ms, which would clear the message if it fired; after
  the second toast only its message is shown, no timer is pending and timer 1 firing
  changes nothing.
\<close>

theorem showToast_single_slot_witness:
  "visible_toast
     (showToast (ascii ''Y'') 0 (showToast (ascii ''X'') 2000 (about_run [] initial_about))) =
     Some (ascii ''Y'') \<and>
   timers (showToast (ascii ''X'') 2000 (about_run [] initial_about)) = [(1, 2000)] \<and>
   toastMessage
     (timer_fires 1 (showToast (ascii ''X'') 2000 (about_run [] initial_about))) = None \<and>
   timers
     (showToast (ascii ''Y'') 0 (showToast (ascii ''X'') 2000 (about_run [] initial_about))) =
     [] \<and>
   timer_fires 1
     (showToast (ascii ''Y'') 0 (showToast (ascii ''X'') 2000 (about_run [] initial_about))) =
     showToast (ascii ''Y'') 0 (showToast (ascii ''X'') 2000 (about_run [] initial_about))"
proof -
  have n: "next_handle (about_run [] initial_about) = 1"
    by (simp add: initial_about_def)
  have y: "ascii ''Y'' \<noteq> []"
    by (simp add: ascii_def)
  note t = showToast_single_slot [OF refl, of "ascii ''X''" 2000 "[]" "ascii ''Y''" "ascii ''X''"]
  from t have m: "toastMessage
      (showToast (ascii ''Y'') 0 (showToast (ascii ''X'') 2000 (about_run [] initial_about))) =
      Some (ascii ''Y'')"
    by (elim conjE)
  with y have v: "visible_toast
      (showToast (ascii ''Y'') 0 (showToast (ascii ''X'') 2000 (about_run [] initial_about))) =
      Some (ascii ''Y'')"
    by (simp add: visible_toast_def)
  from t have "(0::int) < 2000 \<longrightarrow>
      timers (showToast (ascii ''X'') 2000 (about_run [] initial_about)) =
        [(next_handle (about_run [] initial_about), 2000)] \<and>
      toastTimerRef (showToast (ascii ''X'') 2000 (about_run [] initial_about)) =
        Some (next_handle (about_run [] initial_about))"
    by (elim conjE)
  with n have b:
    "timers (showToast (ascii ''X'') 2000 (about_run [] initial_about)) = [(1, 2000)]"
    by simp
  from t have "(0::int) < 2000 \<longrightarrow>
      toastMessage (timer_fires (next_handle (about_run [] initial_about))
        (showToast (ascii ''X'') 2000 (about_run [] initial_about))) = None \<and>
      visible_toast (timer_fires (next_handle (about_run [] initial_about))
        (showToast (ascii ''X'') 2000 (about_run [] initial_about))) = None \<and>
      updateInfo (timer_fires (next_handle (about_run [] initial_about))
        (showToast (ascii ''X'') 2000 (about_run [] initial_about))) = None \<and>
      toastTimerRef (timer_fires (next_handle (about_run [] initial_about))
        (showToast (ascii ''X'') 2000 (about_run [] initial_about))) = None \<and>
      timers (timer_fires (next_handle (about_run [] initial_about))
        (showToast (ascii ''X'') 2000 (about_run [] initial_about))) = [] \<and>
      (\<forall>h. h \<noteq> next_handle (about_run [] initial_about) \<longrightarrow>
           timer_fires h (showToast (ascii ''X'') 2000 (about_run [] initial_about)) =
           showToast (ascii ''X'') 2000 (about_run [] initial_about))"
    by (elim conjE)
  with n have f: "toastMessage
      (timer_fires 1 (showToast (ascii ''X'') 2000 (about_run [] initial_about))) = None"
    by simp
  from t have c: "timers
      (showToast (ascii ''Y'') 0 (showToast (ascii ''X'') 2000 (about_run [] initial_about))) =
      []"
    by (elim conjE)
  from t have "\<forall>h. timer_fires h
      (showToast (ascii ''Y'') 0 (showToast (ascii ''X'') 2000 (about_run [] initial_about))) =
      showToast (ascii ''Y'') 0 (showToast (ascii ''X'') 2000 (about_run [] initial_about))"
    by (elim conjE)
  then have d: "timer_fires 1
      (showToast (ascii ''Y'') 0 (showToast (ascii ''X'') 2000 (about_run [] initial_about))) =
      showToast (ascii ''Y'') 0 (showToast (ascii ''X'') 2000 (about_run [] initial_about))"
    by (rule spec)
  show ?thesis
    by (intro conjI) (rule v b f c d)+
qed

subsection \<open>C9: the separator of an import\<close>

text \<open>
  Claim C9, at the input where the code departs from it. Whatever the separator cell
  holds, an import issues \<open>import_emails\<close> with the content alone: with the separator
  set to a comma and a line whose fields are joined by commas, the command carries the
  line and nothing of the separator, which stays in its cell.
\<close>

theorem import_ignores_separator:
  "trace (step lc (Import_content content) (w\<lparr>ui := (ui w)\<lparr>separator := sep\<rparr>\<rparr>)) =
     trace w @ [Set_loading True, Set_importResult None, Invoke (Import_emails content)] \<and>
   trace (run lc [Change_separator (ascii '',''), Import_content (ascii ''a@b.com,pw,cid,rt'')]
            initial_world) =
     [Set_separator (ascii '',''), Set_loading True, Set_importResult None,
      Invoke (Import_emails (ascii ''a@b.com,pw,cid,rt''))] \<and>
   separator (ui (run lc [Change_separator (ascii '',''),
                           Import_content (ascii ''a@b.com,pw,cid,rt'')] initial_world)) =
     ascii '',''"
  by (simp add: world_defs stmt_defs handler_defs)

subsection \<open>C10: no id is selected twice\<close>

text \<open>
  Claim C10. The selection holds no id twice in any state the component reaches from its
  initial state, and every event (a row toggle, the page checkbox checked or unchecked,
  the clearing after a batch delete, and all others) takes a selection without
  duplicates to a selection without duplicates.
\<close>

theorem selection_distinct:
  "distinct (selectedIds (ui (run lc es initial_world))) \<and>
   (distinct (selectedIds (ui w)) \<longrightarrow> distinct (selectedIds (ui (step lc e w))))"
proof -
  have pres: "distinct (selectedIds (ui w')) \<Longrightarrow> distinct (selectedIds (ui (run lc es w')))"
    for w'
    by (induction es arbitrary: w') (simp_all add: step_distinct del: step.simps)
  have "distinct (selectedIds (ui initial_world))"
    by (simp add: initial_world_def initial_state_def)
  with pres show ?thesis by (simp add: step_distinct del: step.simps)
qed

theorem selection_distinct_witness:
  "distinct (selectedIds (ui selected_world)) \<and>
   selectedIds (ui selected_world) = [3, 7] \<and>
   distinct (selectedIds (ui (step asciiLower (Toggle_page True) selected_world))) \<and>
   distinct (selectedIds (ui (step asciiLower (Toggle_row 7) selected_world)))"
proof -
  have s: "selectedIds (ui selected_world) = [3, 7]"
    by (simp add: world_defs stmt_defs handler_defs example_defs)
  then have d: "distinct (selectedIds (ui selected_world))"
    by simp
  from selection_distinct [of asciiLower "[]" selected_world "Toggle_page True"] d
  have a: "distinct (selectedIds (ui (step asciiLower (Toggle_page True) selected_world)))"
    by blast
  from selection_distinct [of asciiLower "[]" selected_world "Toggle_row 7"] d
  have b: "distinct (selectedIds (ui (step asciiLower (Toggle_row 7) selected_world)))"
    by blast
  from s d a b show ?thesis by blast
qed

end
